theory Spec2Isabelle
  imports Complex_Main "HOL-Library.Monad_Syntax"
begin

section \<open>Values\<close>

text \<open>
  The level data comes from \<open>levels.json\<close>, so a cell of a grid is a JavaScript value:
  a number (\<open>0\<close>, \<open>1\<close>, \<open>2\<close>, \<open>3\<close>), the string \<open>"M"\<close>, or anything else a JSON file can
  hold. \<open>JUndefined\<close> is what reading past the end of an array gives.

  JavaScript numbers are doubles; here they are exact rationals. What the code does with
  them is compare them, test them for strict equality with a small integer, and add and
  multiply pixel coordinates; rounding is not modelled. Row and column indices are
  natural numbers, as the loops and the callers produce them.
\<close>

datatype jsval =
    JUndefined
  | JNull
  | JBool bool
  | JNum rat
  | JStr string
  | JArr "jsval list"
  | JObj "(string \<times> jsval) list"

datatype error = TypeError | StringRow

section \<open>Level.MovingObstacle\<close>

text \<open>
  The fields of the inner class, in the order the constructor assigns them. The field
  names carry the prefix \<open>o_\<close> (and those of a rectangle the prefix \<open>r_\<close>) because
  \<open>x\<close>, \<open>y\<close>, \<open>w\<close>, \<open>h\<close> and \<open>top\<close> would otherwise capture variable and constant names.
\<close>

record obstacle =
  o_col :: nat
  o_row :: nat
  o_minRow :: nat
  o_maxRow :: nat
  o_ts :: rat
  o_speed :: rat
  o_y :: rat
  o_x :: rat
  o_dir :: rat
  o_w :: rat
  o_h :: rat
  o_minY :: rat
  o_maxY :: rat

record rect =
  r_left :: rat
  r_top :: rat
  r_right :: rat
  r_bottom :: rat

text \<open>\<open>constructor(col, row, minRow, maxRow, ts, speed = 1.8)\<close>\<close>

definition default_speed :: rat where
  "default_speed = 18 / 10"

definition MovingObstacle :: "nat \<Rightarrow> nat \<Rightarrow> nat \<Rightarrow> nat \<Rightarrow> rat \<Rightarrow> rat \<Rightarrow> obstacle" where
  "MovingObstacle col row minRow maxRow ts speed =
     \<lparr> o_col = col, o_row = row, o_minRow = minRow, o_maxRow = maxRow,
       o_ts = ts, o_speed = speed,
       o_y = of_nat row * ts + ts / 2,
       o_x = of_nat col * ts + ts / 2,
       o_dir = 1,
       o_w = ts * (8 / 10),
       o_h = ts * (8 / 10),
       o_minY = of_nat minRow * ts + ts / 2,
       o_maxY = of_nat maxRow * ts + ts / 2 \<rparr>"

text \<open>\<open>update()\<close>: move, then reverse at the bounds.\<close>

definition update :: "obstacle \<Rightarrow> obstacle" where
  "update ob =
     (let ob1 = ob\<lparr>o_y := o_y ob + o_speed ob * o_dir ob\<rparr>
      in if o_y ob1 \<ge> o_maxY ob1 then ob1\<lparr>o_y := o_maxY ob1, o_dir := - 1\<rparr>
         else if o_y ob1 \<le> o_minY ob1 then ob1\<lparr>o_y := o_minY ob1, o_dir := 1\<rparr>
         else ob1)"

text \<open>\<open>reset()\<close>\<close>

definition reset :: "obstacle \<Rightarrow> obstacle" where
  "reset ob = ob\<lparr>o_y := of_nat (o_row ob) * o_ts ob + o_ts ob / 2, o_dir := 1\<rparr>"

text \<open>\<open>bounds()\<close>: the axis-aligned rectangle \<open>{left, top, right, bottom}\<close>.\<close>

definition bounds :: "obstacle \<Rightarrow> rect" where
  "bounds ob =
     (let left = o_x ob - o_w ob / 2;
          right = o_x ob + o_w ob / 2;
          top = o_y ob - o_h ob / 2;
          bottom = o_y ob + o_h ob / 2
      in \<lparr> r_left = left, r_top = top, r_right = right, r_bottom = bottom \<rparr>)"

section \<open>Level\<close>

text \<open>
  A grid is an array of rows, each row an array of cells. The constructor copies the rows
  (\<open>grid.map((r) => r.slice())\<close>), which a value model does by itself. The fields of a
  level carry the prefix \<open>l_\<close>. A method that can throw returns an option: \<open>None\<close> is the
  \<open>TypeError\<close> of reading a property of \<open>undefined\<close>.
\<close>

type_synonym grid = "jsval list list"

record level =
  l_grid :: grid
  l_ts :: rat
  l_obstacles :: "obstacle list"
  l_start :: "(nat \<times> nat) option"

text \<open>
  \<open>g[r][c]\<close>: a missing row makes the second index throw; a missing cell of an existing
  row is \<open>undefined\<close>.
\<close>

definition cell :: "grid \<Rightarrow> nat \<Rightarrow> nat \<Rightarrow> jsval option" where
  "cell g r c =
     (if r < length g then Some (if c < length (g ! r) then g ! r ! c else JUndefined)
      else None)"

text \<open>\<open>xs[i] = v\<close>: an index past the end lengthens the array, leaving holes.\<close>

definition arr_store :: "jsval list \<Rightarrow> nat \<Rightarrow> jsval \<Rightarrow> jsval list" where
  "arr_store xs i v =
     (if i < length xs then xs[i := v]
      else xs @ replicate (i - length xs) JUndefined @ [v])"

text \<open>\<open>g[r][c] = v\<close>\<close>

definition set_cell :: "grid \<Rightarrow> nat \<Rightarrow> nat \<Rightarrow> jsval \<Rightarrow> grid option" where
  "set_cell g r c v =
     (if r < length g then Some (g[r := arr_store (g ! r) c v]) else None)"

subsection \<open>Size helpers\<close>

definition rows :: "level \<Rightarrow> nat" where
  "rows L = length (l_grid L)"

text \<open>\<open>cols()\<close> is \<open>this.grid[0].length\<close>, which throws on a grid without rows.\<close>

definition cols :: "level \<Rightarrow> nat option" where
  "cols L = (case l_grid L of [] \<Rightarrow> None | row0 # _ \<Rightarrow> Some (length row0))"

subsection \<open>The constructor\<close>

text \<open>
  \<open>let minRow = r; while (minRow - 1 >= 0 && this.grid[minRow - 1][c] !== 1) minRow--;\<close>
  The argument is the current value of \<open>minRow\<close>.
\<close>

fun scanUp :: "grid \<Rightarrow> nat \<Rightarrow> nat \<Rightarrow> nat option" where
  "scanUp g c 0 = Some 0"
| "scanUp g c (Suc m) =
     do { v \<leftarrow> cell g m c;
          if v \<noteq> JNum 1 then scanUp g c m else Some (Suc m) }"

text \<open>
  \<open>let maxRow = r; while (maxRow + 1 < this.rows() && this.grid[maxRow + 1][c] !== 1) maxRow++;\<close>
\<close>

function scanDown :: "grid \<Rightarrow> nat \<Rightarrow> nat \<Rightarrow> nat option" where
  "scanDown g c m =
     (if m + 1 < length g then
        do { v \<leftarrow> cell g (m + 1) c;
             if v \<noteq> JNum 1 then scanDown g c (m + 1) else Some m }
      else Some m)"
  by pat_completeness auto
termination
  by (relation "measure (\<lambda>(g, c, m). length g - m)") auto

declare scanDown.simps [simp del]

text \<open>The body of the inner loop at row \<open>r\<close>, column \<open>c\<close>.\<close>

definition cell_step :: "nat \<Rightarrow> nat \<Rightarrow> level \<Rightarrow> level option" where
  "cell_step r c L =
     do { v \<leftarrow> cell (l_grid L) r c;
          L1 \<leftarrow> (if v = JNum 2 then
                   do { g1 \<leftarrow> set_cell (l_grid L) r c (JNum 0);
                        Some (L\<lparr>l_start := Some (r, c), l_grid := g1\<rparr>) }
                 else Some L);
          if v = JStr ''M'' then
            do { minRow \<leftarrow> scanUp (l_grid L1) c r;
                 maxRow \<leftarrow> scanDown (l_grid L1) c r;
                 g2 \<leftarrow> set_cell (l_grid L1) r c (JNum 0);
                 Some (L1\<lparr>l_obstacles :=
                             l_obstacles L1 @ [MovingObstacle c r minRow maxRow (l_ts L1) default_speed],
                          l_grid := g2\<rparr>) }
          else Some L1 }"

lemma cell_in_row: "r < length g \<Longrightarrow> c < length (g ! r) \<Longrightarrow> cell g r c = Some (g ! r ! c)"
  by (simp add: cell_def)

lemma cell_tile_in_row:
  assumes "cell g r c = Some v" and "v = JNum k \<or> v = JStr s"
  shows "r < length g \<and> c < length (g ! r)"
  using assms by (auto simp: cell_def split: if_splits)

lemma set_cell_length:
  "set_cell g r c v = Some g' \<Longrightarrow> length g' = length g"
  by (auto simp: set_cell_def split: if_splits)

lemma set_cell_row_length:
  assumes "set_cell g r c v = Some g'" and "c < length (g ! r)"
  shows "length (g' ! i) = length (g ! i)"
  using assms by (cases "i = r") (auto simp: set_cell_def arr_store_def split: if_splits)

lemma cell_step_shape:
  assumes "cell_step r c L = Some L'"
  shows "length (l_grid L') = length (l_grid L)
       \<and> (\<forall>i. length (l_grid L' ! i) = length (l_grid L ! i))"
proof -
  obtain v where v: "cell (l_grid L) r c = Some v"
    using assms by (auto simp: cell_step_def split: bind_splits)
  show ?thesis
  proof (cases "v = JNum 2")
    case True
    with v have inr: "r < length (l_grid L) \<and> c < length (l_grid L ! r)"
      using cell_tile_in_row by blast
    from assms v True obtain g1 where g1: "set_cell (l_grid L) r c (JNum 0) = Some g1"
      and L': "L' = L\<lparr>l_start := Some (r, c), l_grid := g1\<rparr>"
      by (auto simp: cell_step_def split: bind_splits)
    from g1 inr show ?thesis
      unfolding L' by (simp add: set_cell_length set_cell_row_length)
  next
    case notstart: False
    show ?thesis
    proof (cases "v = JStr ''M''")
      case True
      with v have inr: "r < length (l_grid L) \<and> c < length (l_grid L ! r)"
        using cell_tile_in_row by blast
      from assms v True notstart obtain g2 where g2: "set_cell (l_grid L) r c (JNum 0) = Some g2"
        and L': "l_grid L' = g2"
        by (auto simp: cell_step_def split: bind_splits)
      from g2 inr show ?thesis
        unfolding L' by (simp add: set_cell_length set_cell_row_length)
    next
      case False
      with assms v notstart have "L' = L" by (simp add: cell_step_def)
      then show ?thesis by simp
    qed
  qed
qed

lemma cell_step_cols: "cell_step r c L = Some L' \<Longrightarrow> cols L' = cols L"
proof -
  assume a: "cell_step r c L = Some L'"
  from cell_step_shape[OF a] have len: "length (l_grid L') = length (l_grid L)"
    and row0: "length (l_grid L' ! 0) = length (l_grid L ! 0)" by simp_all
  show ?thesis
  proof (cases "l_grid L")
    case Nil
    with len show ?thesis by (simp add: cols_def)
  next
    case (Cons a as)
    with len obtain b bs where "l_grid L' = b # bs" by (cases "l_grid L'") auto
    with Cons row0 show ?thesis by (simp add: cols_def)
  qed
qed

text \<open>\<open>for (let c = 0; c < this.cols(); c++) { ... }\<close>, entered at column \<open>c\<close>.\<close>

function col_loop :: "nat \<Rightarrow> nat \<Rightarrow> level \<Rightarrow> level option" where
  "col_loop r c L =
     do { n \<leftarrow> cols L;
          if c < n then
            do { L' \<leftarrow> cell_step r c L;
                 col_loop r (c + 1) L' }
          else Some L }"
  by pat_completeness auto
termination
  by (relation "measure (\<lambda>(r, c, L). (case cols L of None \<Rightarrow> 0 | Some n \<Rightarrow> n - c))")
     (auto simp: cell_step_cols)

declare col_loop.simps [simp del]

lemma cell_step_lengths: "cell_step r c L = Some L' \<Longrightarrow> map length (l_grid L') = map length (l_grid L)"
  using cell_step_shape[of r c L L'] by (simp add: list_eq_iff_nth_eq)

lemma col_loop_lengths:
  "col_loop r c L = Some L' \<Longrightarrow> map length (l_grid L') = map length (l_grid L)"
proof (induction r c L arbitrary: L' rule: col_loop.induct)
  case (1 r c L)
  from "1.prems" obtain n where n: "cols L = Some n"
    by (subst (asm) col_loop.simps) (auto split: bind_splits)
  show ?case
  proof (cases "c < n")
    case True
    with "1.prems" n obtain L1 where L1: "cell_step r c L = Some L1"
      and rest: "col_loop r (c + 1) L1 = Some L'"
      by (subst (asm) col_loop.simps) (auto split: bind_splits)
    from "1.IH"[OF n True L1 rest] cell_step_lengths[OF L1] show ?thesis by simp
  next
    case False
    with "1.prems" n have "L' = L" by (subst (asm) col_loop.simps) simp
    then show ?thesis by simp
  qed
qed

lemma col_loop_rows: "col_loop r c L = Some L' \<Longrightarrow> rows L' = rows L"
  using col_loop_lengths[of r c L L'] by (metis length_map rows_def)

text \<open>\<open>for (let r = 0; r < this.rows(); r++) { ... }\<close>, entered at row \<open>r\<close>.\<close>

function row_loop :: "nat \<Rightarrow> level \<Rightarrow> level option" where
  "row_loop r L =
     (if r < rows L then
        do { L' \<leftarrow> col_loop r 0 L;
             row_loop (r + 1) L' }
      else Some L)"
  by pat_completeness auto
termination
  by (relation "measure (\<lambda>(r, L). rows L - r)") (auto simp: col_loop_rows)

declare row_loop.simps [simp del]

text \<open>\<open>constructor(grid, tileSize)\<close>\<close>

definition Level :: "grid \<Rightarrow> rat \<Rightarrow> level option" where
  "Level g tileSize =
     row_loop 0 \<lparr> l_grid = g, l_ts = tileSize, l_obstacles = [], l_start = None \<rparr>"

subsection \<open>Semantic helpers\<close>

text \<open>\<open>tileAt(r, c)\<close>: the caller should check \<open>inBounds\<close> first.\<close>

definition tileAt :: "level \<Rightarrow> nat \<Rightarrow> nat \<Rightarrow> jsval option" where
  "tileAt L r c = cell (l_grid L) r c"

definition isWall :: "level \<Rightarrow> nat \<Rightarrow> nat \<Rightarrow> bool option" where
  "isWall L r c = do { v \<leftarrow> tileAt L r c; Some (v = JNum 1) }"

definition isGoal :: "level \<Rightarrow> nat \<Rightarrow> nat \<Rightarrow> bool option" where
  "isGoal L r c = do { v \<leftarrow> tileAt L r c; Some (v = JNum 3) }"

subsection \<open>Obstacles of a level\<close>

definition updateObstacles :: "level \<Rightarrow> level" where
  "updateObstacles L = L\<lparr>l_obstacles := map update (l_obstacles L)\<rparr>"

definition resetObstacles :: "level \<Rightarrow> level" where
  "resetObstacles L = L\<lparr>l_obstacles := map reset (l_obstacles L)\<rparr>"

text \<open>
  \<open>checkObstacleCollision(playerRect)\<close>: the loop over the obstacles returns at the first
  one whose bounds are not separated from the player's rectangle.
\<close>

fun collision_loop :: "rect \<Rightarrow> obstacle list \<Rightarrow> bool" where
  "collision_loop playerRect [] = False"
| "collision_loop playerRect (ob # obs) =
     (let b = bounds ob
      in if \<not> (r_right playerRect < r_left b \<or>
                r_left playerRect > r_right b \<or>
                r_bottom playerRect < r_top b \<or>
                r_top playerRect > r_bottom b)
         then True
         else collision_loop playerRect obs)"

definition checkObstacleCollision :: "level \<Rightarrow> rect \<Rightarrow> bool" where
  "checkObstacleCollision L playerRect = collision_loop playerRect (l_obstacles L)"

subsection \<open>Start-finding\<close>

text \<open>
  \<open>findStart()\<close>: the inner loop either returns a cell from the whole method (\<open>Some p\<close>)
  or runs to its end (\<open>None\<close>).
\<close>

function findStart_cols :: "level \<Rightarrow> nat \<Rightarrow> nat \<Rightarrow> (nat \<times> nat) option option" where
  "findStart_cols L r c =
     do { n \<leftarrow> cols L;
          if c < n then
            do { v \<leftarrow> cell (l_grid L) r c;
                 if v = JNum 2 then Some (Some (r, c)) else findStart_cols L r (c + 1) }
          else Some None }"
  by pat_completeness auto
termination
  by (relation "measure (\<lambda>(L, r, c). (case cols L of None \<Rightarrow> 0 | Some n \<Rightarrow> n - c))") auto

declare findStart_cols.simps [simp del]

function findStart_rows :: "level \<Rightarrow> nat \<Rightarrow> (nat \<times> nat) option option" where
  "findStart_rows L r =
     (if r < rows L then
        do { found \<leftarrow> findStart_cols L r 0;
             case found of Some p \<Rightarrow> Some (Some p) | None \<Rightarrow> findStart_rows L (r + 1) }
      else Some None)"
  by pat_completeness auto
termination
  by (relation "measure (\<lambda>(L, r). rows L - r)") auto

declare findStart_rows.simps [simp del]

definition findStart :: "level \<Rightarrow> (nat \<times> nat) option option" where
  "findStart L = findStart_rows L 0"

section \<open>Loading the levels (sketch.js)\<close>

definition TS :: rat where
  "TS = 32"

text \<open>
  \<open>levelEntry.grid\<close>: a property read. Only an object has own properties here; an array
  never reaches this read, and a number, string or boolean has no \<open>grid\<close>. An object is
  the list of its key-value pairs, keys distinct as \<open>JSON.parse\<close> leaves them.
\<close>

definition get_grid :: "jsval \<Rightarrow> jsval" where
  "get_grid v =
     (case v of
        JObj kvs \<Rightarrow> (case map_of kvs ''grid'' of Some x \<Rightarrow> x | None \<Rightarrow> JUndefined)
      | _ \<Rightarrow> JUndefined)"

text \<open>What \<open>&&\<close> and \<open>if\<close> take for true.\<close>

definition truthy :: "jsval \<Rightarrow> bool" where
  "truthy v =
     (case v of
        JUndefined \<Rightarrow> False
      | JNull \<Rightarrow> False
      | JBool b \<Rightarrow> b
      | JNum n \<Rightarrow> n \<noteq> 0
      | JStr s \<Rightarrow> s \<noteq> []
      | _ \<Rightarrow> True)"

text \<open>
  \<open>row.slice()\<close> throws on a row that has no such method. A string has one; a grid with a
  string for a row is outside the level format and outside this model (\<open>StringRow\<close>).
\<close>

definition slice_row :: "jsval \<Rightarrow> error + jsval list" where
  "slice_row v =
     (case v of
        JArr cells \<Rightarrow> Inr cells
      | JStr s \<Rightarrow> Inl StringRow
      | _ \<Rightarrow> Inl TypeError)"

fun slice_rows :: "jsval list \<Rightarrow> error + grid" where
  "slice_rows [] = Inr []"
| "slice_rows (v # vs) =
     (case slice_row v of
        Inl e \<Rightarrow> Inl e
      | Inr row \<Rightarrow> (case slice_rows vs of Inl e \<Rightarrow> Inl e | Inr g \<Rightarrow> Inr (row # g)))"

text \<open>\<open>copyGrid(grid)\<close>: \<open>grid.map((row) => row.slice())\<close>\<close>

definition copyGrid :: "jsval \<Rightarrow> error + grid" where
  "copyGrid v = (case v of JArr vs \<Rightarrow> slice_rows vs | _ \<Rightarrow> Inl TypeError)"

definition new_Level :: "grid \<Rightarrow> rat \<Rightarrow> error + level" where
  "new_Level g tileSize = (case Level g tileSize of None \<Rightarrow> Inl TypeError | Some L \<Rightarrow> Inr L)"

text \<open>The function mapped over \<open>levelsData.levels\<close> in \<open>setup()\<close>.\<close>

definition load_entry :: "jsval \<Rightarrow> error + level" where
  "load_entry levelEntry =
     (case levelEntry of
        JArr vs \<Rightarrow>
          (case copyGrid levelEntry of Inl e \<Rightarrow> Inl e | Inr g \<Rightarrow> new_Level g TS)
      | _ \<Rightarrow>
          if truthy levelEntry \<and> truthy (get_grid levelEntry) then
            (case copyGrid (get_grid levelEntry) of Inl e \<Rightarrow> Inl e | Inr g \<Rightarrow> new_Level g TS)
          else
            new_Level [[JNum 1, JNum 1], [JNum 1, JNum 1]] TS)"

section \<open>What the constructor computes\<close>

text \<open>
  The travel bounds in the specification's words: from the marker's row, \<open>minRow\<close> moves up
  over the cells that are not walls, and \<open>maxRow\<close> moves down over them, inside the grid.
\<close>

definition is_wall :: "grid \<Rightarrow> nat \<Rightarrow> nat \<Rightarrow> bool" where
  "is_wall g r c = (cell g r c = Some (JNum 1))"

definition spec_minRow :: "grid \<Rightarrow> nat \<Rightarrow> nat \<Rightarrow> nat" where
  "spec_minRow g c r = r - length (takeWhile (\<lambda>i. \<not> is_wall g i c) (rev [0..<r]))"

definition spec_maxRow :: "grid \<Rightarrow> nat \<Rightarrow> nat \<Rightarrow> nat" where
  "spec_maxRow g c r = r + length (takeWhile (\<lambda>i. \<not> is_wall g i c) [r + 1..<length g])"

lemma scanUp_spec: "r \<le> length g \<Longrightarrow> scanUp g c r = Some (spec_minRow g c r)"
proof (induction r)
  case 0
  then show ?case by (simp add: spec_minRow_def)
next
  case (Suc m)
  then have m: "m < length g" by simp
  then obtain v where v: "cell g m c = Some v" by (simp add: cell_def)
  show ?case
  proof (cases "v = JNum 1")
    case True
    with v show ?thesis by (simp add: spec_minRow_def is_wall_def)
  next
    case False
    with v have nw: "\<not> is_wall g m c" by (simp add: is_wall_def)
    have "length (takeWhile (\<lambda>i. \<not> is_wall g i c) (rev [0..<m])) \<le> m"
      using length_takeWhile_le[of "\<lambda>i. \<not> is_wall g i c" "rev [0..<m]"] by simp
    with v False nw Suc show ?thesis by (simp add: spec_minRow_def)
  qed
qed

lemma scanDown_spec: "scanDown g c m = Some (spec_maxRow g c m)"
proof (induction g c m rule: scanDown.induct)
  case (1 g c m)
  show ?case
  proof (cases "m + 1 < length g")
    case True
    then obtain v where v: "cell g (m + 1) c = Some v" by (simp add: cell_def)
    from True have upt: "[Suc m..<length g] = Suc m # [Suc (Suc m)..<length g]"
      by (simp add: upt_conv_Cons)
    show ?thesis
    proof (cases "v = JNum 1")
      case w: True
      with v True show ?thesis
        by (subst scanDown.simps) (simp add: spec_maxRow_def is_wall_def upt)
    next
      case False
      with v have nw: "\<not> is_wall g (m + 1) c" by (simp add: is_wall_def)
      from "1.IH"[OF True v False] v True False nw show ?thesis
        by (subst scanDown.simps) (simp add: spec_maxRow_def upt)
    qed
  next
    case False
    then show ?thesis by (subst scanDown.simps) (simp add: spec_maxRow_def)
  qed
qed


text \<open>
  Normalizing a cell replaces a start code or a marker by floor. \<open>norm_at\<close> does so at one
  place of a grid and \<open>norm_list\<close> at a list of places, one after the other.
\<close>

definition norm_cell :: "jsval \<Rightarrow> jsval" where
  "norm_cell v = (if v = JNum 2 \<or> v = JStr ''M'' then JNum 0 else v)"

definition norm_at :: "grid \<Rightarrow> nat \<Rightarrow> nat \<Rightarrow> grid" where
  "norm_at g r c = g[r := (g ! r)[c := norm_cell (g ! r ! c)]]"

definition norm_list :: "grid \<Rightarrow> (nat \<times> nat) list \<Rightarrow> grid" where
  "norm_list g ps = fold (\<lambda>(r, c) g'. norm_at g' r c) ps g"

text \<open>
  The cells the nested loops visit, in row-major order: every row, and in each row the
  columns of the first row.
\<close>

definition ncols :: "grid \<Rightarrow> nat" where
  "ncols g = (case g of [] \<Rightarrow> 0 | row0 # _ \<Rightarrow> length row0)"

definition scan_cells :: "grid \<Rightarrow> (nat \<times> nat) list" where
  "scan_cells g = concat (map (\<lambda>r. map (Pair r) [0..<ncols g]) [0..<length g])"

definition is_start :: "grid \<Rightarrow> nat \<times> nat \<Rightarrow> bool" where
  "is_start g p = (cell g (fst p) (snd p) = Some (JNum 2))"

definition is_marker :: "grid \<Rightarrow> nat \<times> nat \<Rightarrow> bool" where
  "is_marker g p = (cell g (fst p) (snd p) = Some (JStr ''M''))"

text \<open>The obstacle of a marker at \<open>p = (r, c)\<close> of the input grid.\<close>

definition spawn :: "grid \<Rightarrow> rat \<Rightarrow> nat \<times> nat \<Rightarrow> obstacle" where
  "spawn g tileSize p =
     MovingObstacle (snd p) (fst p) (spec_minRow g (snd p) (fst p)) (spec_maxRow g (snd p) (fst p))
       tileSize default_speed"

definition last_of :: "'a list \<Rightarrow> 'a option" where
  "last_of xs = (if xs = [] then None else Some (last xs))"

text \<open>The state of the constructor once it has visited the cells \<open>ps\<close> of the input \<open>g\<close>.\<close>

definition state_after :: "grid \<Rightarrow> rat \<Rightarrow> (nat \<times> nat) list \<Rightarrow> level" where
  "state_after g tileSize ps =
     \<lparr> l_grid = norm_list g ps, l_ts = tileSize,
       l_obstacles = map (spawn g tileSize) (filter (is_marker g) ps),
       l_start = last_of (filter (is_start g) ps) \<rparr>"

text \<open>
  The normalized grid: in every row, the cells in the columns the scan visits have a
  start code or a marker replaced by floor. A grid is rectangular when all rows are as
  long as the first.
\<close>

definition normalize :: "grid \<Rightarrow> grid" where
  "normalize g = map (\<lambda>row. map norm_cell (take (ncols g) row) @ drop (ncols g) row) g"

definition rectangular :: "grid \<Rightarrow> bool" where
  "rectangular g = list_all (\<lambda>row. length row = ncols g) g"

text \<open>The two kinds of level entry that \<open>setup()\<close> accepts.\<close>

definition is_array :: "jsval \<Rightarrow> bool" where
  "is_array v = (case v of JArr _ \<Rightarrow> True | _ \<Rightarrow> False)"

definition has_grid_field :: "jsval \<Rightarrow> bool" where
  "has_grid_field v = (case v of JObj kvs \<Rightarrow> map_of kvs ''grid'' \<noteq> None | _ \<Rightarrow> False)"

text \<open>The grids of the two scenarios of the specification.\<close>

definition scenario_grid :: grid where
  "scenario_grid =
     [[JNum 1, JNum 1, JNum 1, JNum 1, JNum 1],
      [JNum 1, JNum 0, JNum 0, JNum 0, JNum 1],
      [JNum 1, JNum 0, JStr ''M'', JNum 0, JNum 1],
      [JNum 1, JNum 0, JNum 0, JNum 0, JNum 1],
      [JNum 1, JNum 1, JNum 1, JNum 1, JNum 1]]"

definition fallback_grid :: grid where
  "fallback_grid = [[JNum 1, JNum 1], [JNum 1, JNum 1]]"

lemma norm_cell_idem: "norm_cell (norm_cell v) = norm_cell v"
  by (simp add: norm_cell_def)

lemma norm_cell_wall: "norm_cell v = JNum 1 \<longleftrightarrow> v = JNum 1"
  by (simp add: norm_cell_def)

lemma norm_cell_undefined: "norm_cell JUndefined = JUndefined"
  by (simp add: norm_cell_def)

lemma norm_at_length: "length (norm_at g r c) = length g"
  by (simp add: norm_at_def)

lemma norm_at_row_length: "length (norm_at g r c ! i) = length (g ! i)"
  by (cases "i = r"; cases "r < length g") (simp_all add: norm_at_def not_less list_update_beyond)

lemma norm_at_lengths: "map length (norm_at g r c) = map length g"
  by (simp add: list_eq_iff_nth_eq norm_at_length norm_at_row_length)

lemma cell_norm_at:
  "cell (norm_at g r c) i j =
     (if i = r \<and> j = c then map_option norm_cell (cell g r c) else cell g i j)"
proof (cases "i = r")
  case True
  show ?thesis
  proof (cases "r < length g")
    case inr: True
    with True show ?thesis
      by (cases "j = c"; cases "c < length (g ! r)")
         (simp_all add: cell_def norm_at_def norm_cell_undefined)
  next
    case False
    with True show ?thesis by (simp add: cell_def norm_at_def not_less list_update_beyond)
  qed
next
  case False
  then show ?thesis by (simp add: cell_def norm_at_def)
qed

lemma norm_list_snoc: "norm_list g (ps @ [(r, c)]) = norm_at (norm_list g ps) r c"
  by (simp add: norm_list_def)

lemma norm_list_lengths: "map length (norm_list g ps) = map length g"
  by (induction ps rule: rev_induct) (auto simp: norm_list_snoc norm_at_lengths norm_list_def)

lemma norm_list_length: "length (norm_list g ps) = length g"
  using norm_list_lengths[of g ps] by (metis length_map)

lemma cell_norm_list:
  "cell (norm_list g ps) i j =
     (if (i, j) \<in> set ps then map_option norm_cell (cell g i j) else cell g i j)"
proof (induction ps rule: rev_induct)
  case Nil
  then show ?case by (simp add: norm_list_def)
next
  case (snoc p ps)
  obtain r c where p: "p = (r, c)" by (cases p)
  show ?case
    unfolding p norm_list_snoc cell_norm_at using snoc
    by (auto simp: option.map_comp comp_def norm_cell_idem)
qed

lemma is_wall_norm_list: "is_wall (norm_list g ps) i j = is_wall g i j"
  by (cases "cell g i j") (auto simp: is_wall_def cell_norm_list norm_cell_wall)

lemma spec_minRow_norm_list: "spec_minRow (norm_list g ps) c r = spec_minRow g c r"
  by (simp add: spec_minRow_def is_wall_norm_list)

lemma spec_maxRow_norm_list: "spec_maxRow (norm_list g ps) c r = spec_maxRow g c r"
  by (simp add: spec_maxRow_def is_wall_norm_list norm_list_length)


lemma set_cell_tile:
  assumes "cell g r c = Some v" and "v = JNum k \<or> v = JStr s"
  shows "set_cell g r c x = Some (g[r := (g ! r)[c := x]])"
  using cell_tile_in_row[OF assms] by (simp add: set_cell_def arr_store_def)

lemma norm_at_tile:
  assumes "cell g r c = Some v" and "v = JNum 2 \<or> v = JStr ''M''"
  shows "norm_at g r c = g[r := (g ! r)[c := JNum 0]]"
proof -
  from assms have "r < length g \<and> c < length (g ! r)" by (auto simp: cell_def split: if_splits)
  with assms have "g ! r ! c = v" by (simp add: cell_def)
  with assms(2) show ?thesis by (auto simp: norm_at_def norm_cell_def)
qed

lemma norm_at_other:
  assumes "cell g r c = Some v" and "v \<noteq> JNum 2" and "v \<noteq> JStr ''M''"
  shows "norm_at g r c = g"
proof (cases "c < length (g ! r)")
  case True
  from assms(1) have r: "r < length g" by (auto simp: cell_def split: if_splits)
  with True assms(1) have "g ! r ! c = v" by (simp add: cell_def)
  with assms(2,3) have "norm_cell (g ! r ! c) = g ! r ! c" by (simp add: norm_cell_def)
  then show ?thesis by (simp add: norm_at_def)
next
  case False
  then show ?thesis by (simp add: norm_at_def not_less list_update_beyond)
qed

lemma cell_step_state:
  assumes "r < length g" and "(r, c) \<notin> set ps"
  shows "cell_step r c (state_after g tileSize ps) = Some (state_after g tileSize (ps @ [(r, c)]))"
proof -
  let ?g = "norm_list g ps"
  from assms(1) obtain v where v: "cell g r c = Some v" by (simp add: cell_def)
  with assms(2) have v': "cell ?g r c = Some v" by (simp add: cell_norm_list)
  have up: "scanUp ?g c r = Some (spec_minRow g c r)"
    using assms(1) by (simp add: scanUp_spec norm_list_length spec_minRow_norm_list)
  have down: "scanDown ?g c r = Some (spec_maxRow g c r)"
    by (simp add: scanDown_spec spec_maxRow_norm_list)
  show ?thesis
  proof (cases "v = JNum 2")
    case True
    with v have st: "is_start g (r, c)" and mk: "\<not> is_marker g (r, c)"
      by (simp_all add: is_start_def is_marker_def)
    from v' True have sc: "set_cell ?g r c (JNum 0) = Some (norm_at ?g r c)"
      by (simp add: set_cell_tile[of ?g r c v] norm_at_tile[of ?g r c v])
    from v' True sc st mk show ?thesis
      by (simp add: cell_step_def state_after_def norm_list_snoc last_of_def)
  next
    case notstart: False
    with v have st: "\<not> is_start g (r, c)" by (simp add: is_start_def)
    show ?thesis
    proof (cases "v = JStr ''M''")
      case True
      with v have mk: "is_marker g (r, c)" by (simp add: is_marker_def)
      from v' True have sc: "set_cell ?g r c (JNum 0) = Some (norm_at ?g r c)"
        by (simp add: set_cell_tile[of ?g r c v] norm_at_tile[of ?g r c v])
      from v' True sc st mk up down show ?thesis
        by (simp add: cell_step_def state_after_def norm_list_snoc spawn_def)
    next
      case False
      with v have mk: "\<not> is_marker g (r, c)" by (simp add: is_marker_def)
      from v' notstart False have "norm_at ?g r c = ?g" by (rule norm_at_other)
      with v' notstart False st mk show ?thesis
        by (simp add: cell_step_def state_after_def norm_list_snoc)
    qed
  qed
qed

lemma cols_state:
  assumes "g \<noteq> []"
  shows "cols (state_after g tileSize ps) = Some (ncols g)"
proof -
  from assms obtain a as where g: "g = a # as" by (cases g) auto
  have "map length (norm_list g ps) = map length g" by (rule norm_list_lengths)
  with g obtain b bs where "norm_list g ps = b # bs" and "length b = length a"
    by (cases "norm_list g ps") auto
  with g show ?thesis by (simp add: cols_def state_after_def ncols_def)
qed

lemma rows_state: "rows (state_after g tileSize ps) = length g"
  by (simp add: rows_def state_after_def norm_list_length)

lemma col_loop_state:
  assumes "r < length g" and "\<forall>j\<ge>c. (r, j) \<notin> set ps"
  shows "col_loop r c (state_after g tileSize ps)
           = Some (state_after g tileSize (ps @ map (Pair r) [c..<ncols g]))"
  using assms
proof (induction "ncols g - c" arbitrary: c ps)
  case 0
  then have "\<not> c < ncols g" by simp
  moreover from "0.prems"(1) have "g \<noteq> []" by auto
  ultimately show ?case
    by (subst col_loop.simps) (simp add: cols_state)
next
  case (Suc k)
  then have lt: "c < ncols g" by simp
  from Suc.prems(1) have ne: "g \<noteq> []" by auto
  have step: "cell_step r c (state_after g tileSize ps)
                = Some (state_after g tileSize (ps @ [(r, c)]))"
    using Suc.prems by (intro cell_step_state) auto
  have k: "k = ncols g - (c + 1)" using Suc.hyps(2) by simp
  have fresh: "\<forall>j\<ge>c + 1. (r, j) \<notin> set (ps @ [(r, c)])" using Suc.prems(2) by auto
  have rest: "col_loop r (c + 1) (state_after g tileSize (ps @ [(r, c)]))
                = Some (state_after g tileSize ((ps @ [(r, c)]) @ map (Pair r) [c + 1..<ncols g]))"
    using Suc.hyps(1)[OF k Suc.prems(1) fresh] .
  have upt: "[c..<ncols g] = c # [c + 1..<ncols g]" using lt by (simp add: upt_conv_Cons)
  from rest show ?case
    by (subst col_loop.simps) (simp add: cols_state[OF ne] lt step upt)
qed

lemma row_loop_state:
  assumes "\<forall>i\<ge>r. \<forall>j. (i, j) \<notin> set ps"
  shows "row_loop r (state_after g tileSize ps)
           = Some (state_after g tileSize
                     (ps @ concat (map (\<lambda>i. map (Pair i) [0..<ncols g]) [r..<length g])))"
  using assms
proof (induction "length g - r" arbitrary: r ps)
  case 0
  then have "\<not> r < length g" by simp
  then show ?case by (subst row_loop.simps) (simp add: rows_state)
next
  case (Suc k)
  then have lt: "r < length g" by simp
  have row: "col_loop r 0 (state_after g tileSize ps)
               = Some (state_after g tileSize (ps @ map (Pair r) [0..<ncols g]))"
    using lt Suc.prems by (intro col_loop_state) auto
  have k: "k = length g - (r + 1)" using Suc.hyps(2) by simp
  have fresh: "\<forall>i\<ge>r + 1. \<forall>j. (i, j) \<notin> set (ps @ map (Pair r) [0..<ncols g])"
    using Suc.prems by auto
  have rest: "row_loop (r + 1) (state_after g tileSize (ps @ map (Pair r) [0..<ncols g]))
      = Some (state_after g tileSize ((ps @ map (Pair r) [0..<ncols g])
                @ concat (map (\<lambda>i. map (Pair i) [0..<ncols g]) [r + 1..<length g])))"
    using Suc.hyps(1)[OF k fresh] .
  have upt: "[r..<length g] = r # [r + 1..<length g]" using lt by (simp add: upt_conv_Cons)
  from rest show ?case
    by (subst row_loop.simps) (simp add: rows_state lt row upt)
qed

lemma Level_state: "Level g tileSize = Some (state_after g tileSize (scan_cells g))"
proof -
  have "\<lparr> l_grid = g, l_ts = tileSize, l_obstacles = [], l_start = None \<rparr>
          = state_after g tileSize []"
    by (simp add: state_after_def norm_list_def last_of_def)
  then show ?thesis
    using row_loop_state[of 0 "[]" g tileSize] by (simp add: Level_def scan_cells_def)
qed

subsection \<open>The finished level\<close>

lemma scenario_level:
  "Level scenario_grid 10 =
     Some \<lparr> l_grid =
       [[JNum 1, JNum 1, JNum 1, JNum 1, JNum 1],
        [JNum 1, JNum 0, JNum 0, JNum 0, JNum 1],
        [JNum 1, JNum 0, JNum 0, JNum 0, JNum 1],
        [JNum 1, JNum 0, JNum 0, JNum 0, JNum 1],
        [JNum 1, JNum 1, JNum 1, JNum 1, JNum 1]],
       l_ts = 10, l_obstacles = [MovingObstacle 2 2 1 3 10 default_speed], l_start = None \<rparr>"
  by code_simp

lemma fallback_level:
  "Level fallback_grid TS =
     Some \<lparr> l_grid = fallback_grid, l_ts = TS, l_obstacles = [], l_start = None \<rparr>"
  by code_simp

lemma two_starts_level:
  "Level [[JNum 2, JNum 2]] 10 =
     Some \<lparr> l_grid = [[JNum 0, JNum 0]], l_ts = 10, l_obstacles = [], l_start = Some (0, 1) \<rparr>"
  by code_simp

lemma mem_scan_cells: "(i, j) \<in> set (scan_cells g) \<longleftrightarrow> i < length g \<and> j < ncols g"
  by (force simp: scan_cells_def)

lemma ncols_norm_list: "ncols (norm_list g ps) = ncols g"
proof -
  have "map length (norm_list g ps) = map length g" by (rule norm_list_lengths)
  then show ?thesis
    by (cases g; cases "norm_list g ps") (auto simp: ncols_def)
qed

lemma cell_final:
  "cell (norm_list g (scan_cells g)) i j =
     (if j < ncols g then map_option norm_cell (cell g i j) else cell g i j)"
proof (cases "i < length g")
  case True
  then show ?thesis by (simp add: cell_norm_list mem_scan_cells)
next
  case False
  then show ?thesis by (simp add: cell_def norm_list_length)
qed

lemma norm_cell_not_tile: "norm_cell v \<noteq> JNum 2 \<and> norm_cell v \<noteq> JStr ''M''"
  by (simp add: norm_cell_def)

lemma final_grid: "norm_list g (scan_cells g) = normalize g"
proof (rule nth_equalityI)
  show "length (norm_list g (scan_cells g)) = length (normalize g)"
    by (simp add: norm_list_length normalize_def)
next
  fix i assume "i < length (norm_list g (scan_cells g))"
  then have i: "i < length g" by (simp add: norm_list_length)
  let ?a = "norm_list g (scan_cells g) ! i"
  have la: "length ?a = length (g ! i)"
    using norm_list_lengths[of g "scan_cells g"] i by (metis length_map nth_map)
  show "?a = normalize g ! i"
  proof (rule nth_equalityI)
    show "length ?a = length (normalize g ! i)"
      using i la by (simp add: normalize_def)
  next
    fix j assume "j < length ?a"
    with la have j: "j < length (g ! i)" by simp
    have "cell (norm_list g (scan_cells g)) i j = Some (?a ! j)"
      using i j la by (simp add: cell_def norm_list_length)
    moreover have "cell g i j = Some (g ! i ! j)" using i j by (simp add: cell_def)
    ultimately have "?a ! j = (if j < ncols g then norm_cell (g ! i ! j) else g ! i ! j)"
      using cell_final[of g i j] by (simp split: if_splits)
    with i j show "?a ! j = normalize g ! i ! j"
      by (simp add: normalize_def nth_append)
  qed
qed

lemma normalize_rectangular: "rectangular g \<Longrightarrow> normalize g = map (map norm_cell) g"
  by (simp add: normalize_def rectangular_def list_all_iff)


lemma findStart_cols_none:
  assumes "r < rows L" and "cols L = Some n"
    and "\<forall>j. c \<le> j \<and> j < n \<longrightarrow> cell (l_grid L) r j \<noteq> Some (JNum 2)"
  shows "findStart_cols L r c = Some None"
  using assms
proof (induction "n - c" arbitrary: c)
  case 0
  then show ?case by (subst findStart_cols.simps) simp
next
  case (Suc k)
  then have lt: "c < n" by simp
  from Suc.prems(1) obtain v where v: "cell (l_grid L) r c = Some v"
    by (simp add: cell_def rows_def)
  with Suc.prems(3) lt have nv: "v \<noteq> JNum 2" by auto
  have "findStart_cols L r (c + 1) = Some None"
    using Suc.hyps(2) Suc.prems by (intro Suc.hyps(1)) auto
  with Suc.prems(2) lt v nv show ?case by (subst findStart_cols.simps) simp
qed

lemma findStart_rows_none:
  assumes "\<forall>i j. j < ncols (l_grid L) \<longrightarrow> cell (l_grid L) i j \<noteq> Some (JNum 2)"
  shows "findStart_rows L r = Some None"
proof (induction "rows L - r" arbitrary: r)
  case 0
  then show ?case by (subst findStart_rows.simps) simp
next
  case (Suc k)
  then have lt: "r < rows L" by simp
  then have "l_grid L \<noteq> []" by (auto simp: rows_def)
  then have cols: "cols L = Some (ncols (l_grid L))"
    by (cases "l_grid L") (simp_all add: cols_def ncols_def)
  have row: "findStart_cols L r 0 = Some None"
    using lt cols assms by (intro findStart_cols_none) auto
  have "findStart_rows L (r + 1) = Some None"
    using Suc.hyps(2) by (intro Suc.hyps(1)) simp
  with lt row show ?case by (subst findStart_rows.simps) simp
qed

lemma reset_update: "reset (update ob) = reset ob"
  by (simp add: reset_def update_def Let_def)

lemma reset_update_iter: "reset ((update ^^ n) ob) = reset ob"
  by (induction n) (simp_all add: reset_update)

lemma reset_MovingObstacle:
  "reset (MovingObstacle col row minRow maxRow tileSize speed)
     = MovingObstacle col row minRow maxRow tileSize speed"
  by (simp add: reset_def MovingObstacle_def)

lemma updateObstacles_iter:
  "(updateObstacles ^^ n) L = L\<lparr>l_obstacles := map (update ^^ n) (l_obstacles L)\<rparr>"
  by (induction n) (simp_all add: updateObstacles_def)

lemma resetObstacles_after_updates:
  "resetObstacles ((updateObstacles ^^ n) L) = resetObstacles L"
  by (simp add: updateObstacles_iter resetObstacles_def reset_update_iter comp_def)

lemma resetObstacles_state:
  "resetObstacles (state_after g tileSize ps) = state_after g tileSize ps"
  by (simp add: resetObstacles_def state_after_def spawn_def reset_MovingObstacle comp_def)

subsection \<open>The travel bounds, declaratively\<close>

lemma spec_minRow_le: "spec_minRow g c r \<le> r"
  by (simp add: spec_minRow_def)

lemma spec_minRow_clear:
  assumes "spec_minRow g c r \<le> i" and "i < r"
  shows "\<not> is_wall g i c"
proof -
  let ?P = "\<lambda>i. \<not> is_wall g i c"
  let ?xs = "rev [0..<r]"
  let ?k = "length (takeWhile ?P ?xs)"
  have k: "?k \<le> r" using length_takeWhile_le[of ?P ?xs] by simp
  from assms k have idx: "r - 1 - i < ?k" by (simp add: spec_minRow_def)
  then have "?P (?xs ! (r - 1 - i))"
    using nth_mem[of "r - 1 - i" "takeWhile ?P ?xs"] set_takeWhileD[of _ ?P ?xs]
    by (metis takeWhile_nth)
  moreover have "?xs ! (r - 1 - i) = i" using assms(2) by (simp add: rev_nth)
  ultimately show ?thesis by simp
qed

lemma spec_minRow_stop:
  "spec_minRow g c r = 0 \<or> is_wall g (spec_minRow g c r - 1) c"
proof -
  let ?P = "\<lambda>i. \<not> is_wall g i c"
  let ?xs = "rev [0..<r]"
  let ?k = "length (takeWhile ?P ?xs)"
  show ?thesis
  proof (cases "?k < length ?xs")
    case True
    then have "\<not> ?P (?xs ! ?k)" by (rule nth_length_takeWhile)
    moreover from True have "?xs ! ?k = r - 1 - ?k" by (simp add: rev_nth)
    moreover from True have "spec_minRow g c r - 1 = r - 1 - ?k" by (simp add: spec_minRow_def)
    ultimately show ?thesis by simp
  next
    case False
    moreover have "?k \<le> length ?xs" by (rule length_takeWhile_le)
    ultimately have "?k = r" by simp
    then show ?thesis by (simp add: spec_minRow_def)
  qed
qed

lemma spec_maxRow_ge: "r \<le> spec_maxRow g c r"
  by (simp add: spec_maxRow_def)

lemma spec_maxRow_clear:
  assumes "r < i" and "i \<le> spec_maxRow g c r"
  shows "i < length g \<and> \<not> is_wall g i c"
proof -
  let ?P = "\<lambda>i. \<not> is_wall g i c"
  let ?xs = "[r + 1..<length g]"
  let ?k = "length (takeWhile ?P ?xs)"
  have k: "?k \<le> length ?xs" by (rule length_takeWhile_le)
  from assms have idx: "i - (r + 1) < ?k" by (simp add: spec_maxRow_def)
  with k have inr: "i < length g" using assms(1) by simp
  from idx have "?P (?xs ! (i - (r + 1)))"
    using nth_mem[of "i - (r + 1)" "takeWhile ?P ?xs"] set_takeWhileD[of _ ?P ?xs]
    by (metis takeWhile_nth)
  moreover have "?xs ! (i - (r + 1)) = i" using assms(1) inr by simp
  ultimately show ?thesis using inr by simp
qed

lemma spec_maxRow_stop:
  "spec_maxRow g c r + 1 \<ge> length g \<or> is_wall g (spec_maxRow g c r + 1) c"
proof -
  let ?P = "\<lambda>i. \<not> is_wall g i c"
  let ?xs = "[r + 1..<length g]"
  let ?k = "length (takeWhile ?P ?xs)"
  show ?thesis
  proof (cases "?k < length ?xs")
    case True
    then have "\<not> ?P (?xs ! ?k)" by (rule nth_length_takeWhile)
    moreover from True have "?xs ! ?k = r + 1 + ?k" by simp
    ultimately show ?thesis by (simp add: spec_maxRow_def)
  next
    case False
    moreover have "?k \<le> length ?xs" by (rule length_takeWhile_le)
    ultimately have "?k = length ?xs" by simp
    then have "length g \<le> spec_maxRow g c r + 1" by (simp add: spec_maxRow_def)
    then show ?thesis by simp
  qed
qed

section \<open>Rectangles\<close>

text \<open>
  The specification's vocabulary for two axis-aligned rectangles: one is entirely to the
  left of (or above) the other; they overlap on an axis when neither is entirely on one
  side of the other there; they overlap when they do on both axes.
\<close>

definition entirely_left_of :: "rect \<Rightarrow> rect \<Rightarrow> bool" where
  "entirely_left_of a b = (r_right a < r_left b)"

definition entirely_above :: "rect \<Rightarrow> rect \<Rightarrow> bool" where
  "entirely_above a b = (r_bottom a < r_top b)"

definition overlap_x :: "rect \<Rightarrow> rect \<Rightarrow> bool" where
  "overlap_x a b = (\<not> entirely_left_of a b \<and> \<not> entirely_left_of b a)"

definition overlap_y :: "rect \<Rightarrow> rect \<Rightarrow> bool" where
  "overlap_y a b = (\<not> entirely_above a b \<and> \<not> entirely_above b a)"

definition overlaps :: "rect \<Rightarrow> rect \<Rightarrow> bool" where
  "overlaps a b = (overlap_x a b \<and> overlap_y a b)"

definition well_formed :: "rect \<Rightarrow> bool" where
  "well_formed a = (r_left a \<le> r_right a \<and> r_top a \<le> r_bottom a)"

definition contains_point :: "rect \<Rightarrow> rat \<Rightarrow> rat \<Rightarrow> bool" where
  "contains_point a px py = (r_left a \<le> px \<and> px \<le> r_right a \<and> r_top a \<le> py \<and> py \<le> r_bottom a)"

text \<open>
  A rectangle touches another on an edge when one of its sides lies on the opposite side
  of the other while the two overlap on the other axis.
\<close>

definition touches :: "rect \<Rightarrow> rect \<Rightarrow> bool" where
  "touches a b =
     ((r_right a = r_left b \<or> r_left a = r_right b) \<and> overlap_y a b
      \<or> (r_bottom a = r_top b \<or> r_top a = r_bottom b) \<and> overlap_x a b)"

section \<open>Obstacle motion\<close>

lemma update_fixed_fields:
  "o_col (update ob) = o_col ob" "o_row (update ob) = o_row ob"
  "o_minRow (update ob) = o_minRow ob" "o_maxRow (update ob) = o_maxRow ob"
  "o_ts (update ob) = o_ts ob" "o_speed (update ob) = o_speed ob"
  "o_x (update ob) = o_x ob" "o_w (update ob) = o_w ob" "o_h (update ob) = o_h ob"
  "o_minY (update ob) = o_minY ob" "o_maxY (update ob) = o_maxY ob"
  by (simp_all add: update_def Let_def)

lemma update_iter_fixed_fields:
  "o_row ((update ^^ n) ob) = o_row ob" "o_ts ((update ^^ n) ob) = o_ts ob"
  "o_x ((update ^^ n) ob) = o_x ob" "o_w ((update ^^ n) ob) = o_w ob"
  "o_h ((update ^^ n) ob) = o_h ob"
  "o_minY ((update ^^ n) ob) = o_minY ob" "o_maxY ((update ^^ n) ob) = o_maxY ob"
  "o_speed ((update ^^ n) ob) = o_speed ob"
  by (induction n) (simp_all add: update_fixed_fields)

lemma update_within:
  assumes "o_minY ob \<le> o_maxY ob"
  shows "o_minY (update ob) \<le> o_y (update ob) \<and> o_y (update ob) \<le> o_maxY (update ob)"
  using assms by (simp add: update_def Let_def)

lemma MovingObstacle_bounds_ordered:
  assumes "minRow \<le> maxRow" and "0 \<le> ts"
  shows "o_minY (MovingObstacle col row minRow maxRow ts speed)
           \<le> o_maxY (MovingObstacle col row minRow maxRow ts speed)"
proof -
  have "(of_nat minRow :: rat) \<le> of_nat maxRow" using assms(1) by simp
  then have "of_nat minRow * ts \<le> of_nat maxRow * ts"
    using assms(2) by (rule mult_right_mono)
  then show ?thesis by (simp add: MovingObstacle_def)
qed

lemma MovingObstacle_within:
  assumes "minRow \<le> row" and "row \<le> maxRow" and "0 \<le> ts"
  shows "o_minY (MovingObstacle col row minRow maxRow ts speed)
           \<le> o_y (MovingObstacle col row minRow maxRow ts speed)
       \<and> o_y (MovingObstacle col row minRow maxRow ts speed)
           \<le> o_maxY (MovingObstacle col row minRow maxRow ts speed)"
proof -
  have "(of_nat minRow :: rat) * ts \<le> of_nat row * ts"
    using assms(1,3) by (simp add: mult_right_mono)
  moreover have "(of_nat row :: rat) * ts \<le> of_nat maxRow * ts"
    using assms(2,3) by (simp add: mult_right_mono)
  ultimately show ?thesis by (simp add: MovingObstacle_def)
qed

lemma update_iter_within:
  assumes "o_minY ob \<le> o_y ob" and "o_y ob \<le> o_maxY ob"
  shows "o_minY ((update ^^ n) ob) \<le> o_y ((update ^^ n) ob)
       \<and> o_y ((update ^^ n) ob) \<le> o_maxY ((update ^^ n) ob)"
proof (cases n)
  case 0
  then show ?thesis using assms by simp
next
  case (Suc k)
  have "o_minY ((update ^^ k) ob) \<le> o_maxY ((update ^^ k) ob)"
    using assms by (simp add: update_iter_fixed_fields)
  then show ?thesis unfolding Suc funpow.simps comp_apply by (rule update_within)
qed

section \<open>Collision test\<close>

lemma collision_loop_iff:
  "collision_loop p obs \<longleftrightarrow> (\<exists>ob \<in> set obs. overlaps p (bounds ob))"
  by (induction obs)
     (auto simp: Let_def overlaps_def overlap_x_def overlap_y_def entirely_left_of_def
        entirely_above_def)

lemma overlaps_common_point:
  assumes "well_formed a" and "well_formed b"
  shows "overlaps a b \<longleftrightarrow> (\<exists>px py. contains_point a px py \<and> contains_point b px py)"
proof
  assume ov: "overlaps a b"
  let ?px = "max (r_left a) (r_left b)" and ?py = "max (r_top a) (r_top b)"
  from ov assms have "contains_point a ?px ?py \<and> contains_point b ?px ?py"
    by (auto simp: overlaps_def overlap_x_def overlap_y_def entirely_left_of_def
        entirely_above_def well_formed_def contains_point_def)
  then show "\<exists>px py. contains_point a px py \<and> contains_point b px py" by blast
next
  assume "\<exists>px py. contains_point a px py \<and> contains_point b px py"
  then show "overlaps a b"
    by (auto simp: overlaps_def overlap_x_def overlap_y_def entirely_left_of_def
        entirely_above_def contains_point_def)
qed

lemma bounds_update_iter:
  "bounds ((update ^^ n) ob) =
     \<lparr> r_left = o_x ob - o_w ob / 2, r_top = o_y ((update ^^ n) ob) - o_h ob / 2,
       r_right = o_x ob + o_w ob / 2, r_bottom = o_y ((update ^^ n) ob) + o_h ob / 2 \<rparr>"
  by (simp add: bounds_def Let_def update_iter_fixed_fields)

lemma spawned_bounds_well_formed:
  assumes "0 \<le> tileSize"
  shows "well_formed (bounds ((update ^^ n) (MovingObstacle col row lo hi tileSize speed)))"
  using assms by (simp add: bounds_update_iter well_formed_def MovingObstacle_def)

section \<open>The claims\<close>

text \<open>
  C1. An obstacle constructed with \<open>minRow \<le> row \<le> maxRow\<close> (and a tile size that is not
  negative) keeps \<open>minY \<le> y \<le> maxY\<close> after any number \<open>n\<close> of calls of \<open>update()\<close>. The
  next call advances the centre by \<open>speed * dir\<close>; when the new centre reaches or exceeds
  \<open>maxY\<close> it is set to \<open>maxY\<close> and the direction to \<open>-1\<close>; otherwise, when it reaches or goes
  below \<open>minY\<close>, it is set to \<open>minY\<close> and the direction to \<open>+1\<close>; otherwise the advanced
  centre is kept and the direction is unchanged.
\<close>

theorem update_clamps_forever:
  fixes col row minRow maxRow n :: nat and ts speed :: rat
  assumes "minRow \<le> row" and "row \<le> maxRow" and "0 \<le> ts"
  defines "ob \<equiv> (update ^^ n) (MovingObstacle col row minRow maxRow ts speed)"
  defines "y' \<equiv> o_y ob + o_speed ob * o_dir ob"
  shows "(o_minY ob \<le> o_y ob \<and> o_y ob \<le> o_maxY ob)
       \<and> (o_minY (update ob) \<le> o_y (update ob) \<and> o_y (update ob) \<le> o_maxY (update ob))
       \<and> (y' \<ge> o_maxY ob \<longrightarrow> o_y (update ob) = o_maxY ob \<and> o_dir (update ob) = - 1)
       \<and> (y' < o_maxY ob \<and> y' \<le> o_minY ob \<longrightarrow>
            o_y (update ob) = o_minY ob \<and> o_dir (update ob) = 1)
       \<and> (y' < o_maxY ob \<and> o_minY ob < y' \<longrightarrow>
            o_y (update ob) = y' \<and> o_dir (update ob) = o_dir ob)"
proof -
  have inv: "o_minY ob \<le> o_y ob \<and> o_y ob \<le> o_maxY ob"
    unfolding ob_def
    by (rule update_iter_within) (use assms(1-3) MovingObstacle_within in blast)+
  then have "o_minY ob \<le> o_maxY ob" by simp
  then have next_inv:
    "o_minY (update ob) \<le> o_y (update ob) \<and> o_y (update ob) \<le> o_maxY (update ob)"
    by (rule update_within)
  have hi: "y' \<ge> o_maxY ob \<longrightarrow> o_y (update ob) = o_maxY ob \<and> o_dir (update ob) = - 1"
    by (simp add: update_def Let_def y'_def)
  have lo: "y' < o_maxY ob \<and> y' \<le> o_minY ob \<longrightarrow>
      o_y (update ob) = o_minY ob \<and> o_dir (update ob) = 1"
    by (simp add: update_def Let_def y'_def)
  have mid: "y' < o_maxY ob \<and> o_minY ob < y' \<longrightarrow>
      o_y (update ob) = y' \<and> o_dir (update ob) = o_dir ob"
    by (simp add: update_def Let_def y'_def)
  from inv next_inv hi lo mid show ?thesis by blast
qed

theorem update_clamps_forever_witness:
  "(1::nat) \<le> 2 \<and> (2::nat) \<le> 3 \<and> (0::rat) \<le> 10
   \<and> o_y ((update ^^ 5) (MovingObstacle 2 2 1 3 10 (18 / 10))) = 34
   \<and> o_y ((update ^^ 6) (MovingObstacle 2 2 1 3 10 (18 / 10))) = 35
   \<and> o_dir ((update ^^ 6) (MovingObstacle 2 2 1 3 10 (18 / 10))) = - 1
   \<and> o_minY ((update ^^ 6) (MovingObstacle 2 2 1 3 10 (18 / 10))) = 15
   \<and> o_maxY ((update ^^ 6) (MovingObstacle 2 2 1 3 10 (18 / 10))) = 35"
  using update_clamps_forever[where minRow = 1 and row = 2 and maxRow = 3 and ts = 10
      and col = 2 and speed = "18 / 10" and n = 5]
  by (simp add: eval_nat_numeral update_def MovingObstacle_def Let_def)

text \<open>
  C2. \<open>checkObstacleCollision(playerRect)\<close> is true exactly when the rectangle overlaps the
  bounds of at least one obstacle of the level, where two rectangles do not overlap when
  one is entirely to one side of the other on an axis. It is false for a level without
  obstacles; a rectangle that is apart from every obstacle on some axis reports no
  collision, and one that overlaps some obstacle on both axes reports a collision.
\<close>

theorem checkObstacleCollision_iff_overlap:
  "(checkObstacleCollision L p \<longleftrightarrow> (\<exists>ob \<in> set (l_obstacles L). overlaps p (bounds ob)))
   \<and> (l_obstacles L = [] \<longrightarrow> \<not> checkObstacleCollision L p)
   \<and> ((\<forall>ob \<in> set (l_obstacles L). \<not> overlap_x p (bounds ob) \<or> \<not> overlap_y p (bounds ob))
        \<longrightarrow> \<not> checkObstacleCollision L p)
   \<and> ((\<exists>ob \<in> set (l_obstacles L). overlap_x p (bounds ob) \<and> overlap_y p (bounds ob))
        \<longrightarrow> checkObstacleCollision L p)"
  unfolding checkObstacleCollision_def collision_loop_iff overlaps_def by auto

theorem checkObstacleCollision_iff_overlap_witness:
  "checkObstacleCollision
      \<lparr> l_grid = [], l_ts = 10, l_obstacles = [MovingObstacle 2 2 1 3 10 default_speed],
        l_start = None \<rparr>
      \<lparr> r_left = 20, r_top = 20, r_right = 22, r_bottom = 22 \<rparr>
   \<and> \<not> checkObstacleCollision
      \<lparr> l_grid = [], l_ts = 10, l_obstacles = [MovingObstacle 2 2 1 3 10 default_speed],
        l_start = None \<rparr>
      \<lparr> r_left = 10, r_top = 20, r_right = 20, r_bottom = 30 \<rparr>
   \<and> \<not> checkObstacleCollision
      \<lparr> l_grid = [], l_ts = 10, l_obstacles = [], l_start = None \<rparr>
      \<lparr> r_left = 20, r_top = 20, r_right = 22, r_bottom = 22 \<rparr>"
  using checkObstacleCollision_iff_overlap[of
      "\<lparr> l_grid = [], l_ts = 10, l_obstacles = [MovingObstacle 2 2 1 3 10 default_speed],
         l_start = None \<rparr>"
      "\<lparr> r_left = 20, r_top = 20, r_right = 22, r_bottom = 22 \<rparr>"]
    checkObstacleCollision_iff_overlap[of
      "\<lparr> l_grid = [], l_ts = 10, l_obstacles = [MovingObstacle 2 2 1 3 10 default_speed],
         l_start = None \<rparr>"
      "\<lparr> r_left = 10, r_top = 20, r_right = 20, r_bottom = 30 \<rparr>"]
    checkObstacleCollision_iff_overlap[of
      "\<lparr> l_grid = [], l_ts = 10, l_obstacles = [], l_start = None \<rparr>"
      "\<lparr> r_left = 20, r_top = 20, r_right = 22, r_bottom = 22 \<rparr>"]
  by (simp add: overlaps_def overlap_x_def overlap_y_def entirely_left_of_def entirely_above_def
      bounds_def MovingObstacle_def Let_def)

text \<open>
  C4 (as the code has it). \<open>w\<close> and \<open>h\<close> are the full side lengths, each \<open>ts * 0.8\<close>, and
  stay so under \<open>update()\<close>: the rectangle of \<open>bounds()\<close> reaches from the current centre
  minus \<open>w / 2\<close> to the centre plus \<open>w / 2\<close> across, and minus \<open>h / 2\<close> to plus \<open>h / 2\<close> down,
  that is half of \<open>ts * 0.8\<close> on each side, where the horizontal centre is the one the
  constructor computed. Each equation is between expressions the code itself evaluates,
  so none depends on how the arithmetic rounds.
\<close>

theorem bounds_span:
  fixes col row minRow maxRow n :: nat and ts speed :: rat
  defines "ob \<equiv> (update ^^ n) (MovingObstacle col row minRow maxRow ts speed)"
  shows "o_w ob = ts * (8 / 10) \<and> o_h ob = ts * (8 / 10)
       \<and> o_x ob = of_nat col * ts + ts / 2
       \<and> r_left (bounds ob) = o_x ob - o_w ob / 2
       \<and> r_right (bounds ob) = o_x ob + o_w ob / 2
       \<and> r_top (bounds ob) = o_y ob - o_h ob / 2
       \<and> r_bottom (bounds ob) = o_y ob + o_h ob / 2"
proof -
  have fixed: "o_w ob = ts * (8 / 10)" "o_h ob = ts * (8 / 10)"
    "o_x ob = of_nat col * ts + ts / 2"
    unfolding ob_def update_iter_fixed_fields by (simp_all add: MovingObstacle_def)
  have sides: "r_left (bounds ob) = o_x ob - o_w ob / 2"
    "r_right (bounds ob) = o_x ob + o_w ob / 2"
    "r_top (bounds ob) = o_y ob - o_h ob / 2"
    "r_bottom (bounds ob) = o_y ob + o_h ob / 2"
    by (simp_all add: bounds_def Let_def)
  from fixed sides show ?thesis by simp
qed

text \<open>
  With tile size 10, the rectangle does not reach \<open>0.8 * ts = 8\<close> from the centre and its
  span is 8, not 16.
\<close>

theorem bounds_span_counterexample:
  "r_left (bounds (MovingObstacle 2 2 1 3 10 (18 / 10)))
      \<noteq> o_x (MovingObstacle 2 2 1 3 10 (18 / 10)) - (8 / 10) * 10
   \<and> r_right (bounds (MovingObstacle 2 2 1 3 10 (18 / 10)))
      \<noteq> o_x (MovingObstacle 2 2 1 3 10 (18 / 10)) + (8 / 10) * 10
   \<and> r_right (bounds (MovingObstacle 2 2 1 3 10 (18 / 10)))
      - r_left (bounds (MovingObstacle 2 2 1 3 10 (18 / 10))) \<noteq> (16 / 10) * 10
   \<and> r_bottom (bounds (MovingObstacle 2 2 1 3 10 (18 / 10)))
      - r_top (bounds (MovingObstacle 2 2 1 3 10 (18 / 10))) = 8"
  by (simp add: bounds_def MovingObstacle_def Let_def)

text \<open>
  C10. The test is inclusive at the boundary: a player rectangle that touches the bounds
  of an obstacle of the level on an edge, overlapping on the other axis, collides. Both
  are rectangles: left is not right of right, top not below bottom.
\<close>

theorem touching_edge_collides:
  assumes "ob \<in> set (l_obstacles L)"
    and "well_formed p" and "well_formed (bounds ob)"
    and "touches p (bounds ob)"
  shows "checkObstacleCollision L p"
proof -
  from assms(2-4) have "overlaps p (bounds ob)"
    by (auto simp: touches_def overlaps_def overlap_x_def overlap_y_def entirely_left_of_def
        entirely_above_def well_formed_def)
  with assms(1) show ?thesis
    unfolding checkObstacleCollision_def collision_loop_iff by blast
qed

theorem touching_edge_collides_witness:
  "MovingObstacle 2 2 1 3 10 default_speed \<in> set [MovingObstacle 2 2 1 3 10 default_speed]
   \<and> well_formed \<lparr> r_left = 10, r_top = 20, r_right = 21, r_bottom = 30 \<rparr>
   \<and> well_formed (bounds (MovingObstacle 2 2 1 3 10 default_speed))
   \<and> touches \<lparr> r_left = 10, r_top = 20, r_right = 21, r_bottom = 30 \<rparr>
        (bounds (MovingObstacle 2 2 1 3 10 default_speed))
   \<and> r_left (bounds (MovingObstacle 2 2 1 3 10 default_speed)) = 21
   \<and> checkObstacleCollision
        \<lparr> l_grid = [], l_ts = 10, l_obstacles = [MovingObstacle 2 2 1 3 10 default_speed],
          l_start = None \<rparr>
        \<lparr> r_left = 10, r_top = 20, r_right = 21, r_bottom = 30 \<rparr>"
  using touching_edge_collides[of "MovingObstacle 2 2 1 3 10 default_speed"
      "\<lparr> l_grid = [], l_ts = 10, l_obstacles = [MovingObstacle 2 2 1 3 10 default_speed],
         l_start = None \<rparr>"
      "\<lparr> r_left = 10, r_top = 20, r_right = 21, r_bottom = 30 \<rparr>"]
  by (simp add: touches_def well_formed_def overlap_x_def overlap_y_def entirely_left_of_def
      entirely_above_def bounds_def MovingObstacle_def Let_def)

text \<open>
  C3 (as the code has it). The constructor assigns \<open>start\<close> at every start cell it visits,
  so the field holds the last start cell of the row-major scan (none when there is none).
\<close>

theorem start_is_last_start_cell:
  "\<exists>L. Level g tileSize = Some L
      \<and> l_start L = last_of (filter (is_start g) (scan_cells g))"
  by (simp add: Level_state state_after_def)

text \<open>
  With two start cells in one row the field is the second, not the first.
\<close>

theorem start_is_first_counterexample:
  "map_option l_start (Level [[JNum 2, JNum 2]] 10) = Some (Some (0, 1))
   \<and> hd (filter (is_start [[JNum 2, JNum 2]]) (scan_cells [[JNum 2, JNum 2]])) = (0, 0)
   \<and> map_option l_start (Level [[JNum 2, JNum 2]] 10)
       \<noteq> Some (Some (hd (filter (is_start [[JNum 2, JNum 2]]) (scan_cells [[JNum 2, JNum 2]]))))"
proof -
  have "hd (filter (is_start [[JNum 2, JNum 2]]) (scan_cells [[JNum 2, JNum 2]])) = (0, 0)"
    by code_simp
  then show ?thesis by (simp add: two_starts_level)
qed

text \<open>
  C5. For a rectangular grid the constructor succeeds and the grid of the level is the
  input with every start code and every marker replaced by floor (0); no cell of it is a
  start code or a marker.
\<close>

theorem normalized_grid_has_no_start_or_marker:
  assumes "rectangular g"
  shows "\<exists>L. Level g tileSize = Some L
      \<and> l_grid L = map (map norm_cell) g
      \<and> (\<forall>row \<in> set (l_grid L). \<forall>v \<in> set row. v \<noteq> JNum 2 \<and> v \<noteq> JStr ''M'')"
proof -
  have "l_grid (state_after g tileSize (scan_cells g)) = map (map norm_cell) g"
    using assms by (simp add: state_after_def final_grid normalize_rectangular)
  then show ?thesis
    by (auto simp: Level_state norm_cell_not_tile)
qed

theorem normalized_grid_has_no_start_or_marker_witness:
  "rectangular [[JNum 2, JStr ''M''], [JNum 3, JNum 1]]
   \<and> map_option l_grid (Level [[JNum 2, JStr ''M''], [JNum 3, JNum 1]] 10)
       = Some [[JNum 0, JNum 0], [JNum 3, JNum 1]]"
proof -
  have r: "rectangular [[JNum 2, JStr ''M''], [JNum 3, JNum 1]]"
    by (simp add: rectangular_def ncols_def)
  from normalized_grid_has_no_start_or_marker[OF r, of 10] r show ?thesis
    by (auto simp: norm_cell_def)
qed

text \<open>
  C6. The obstacles of the level are, in scan order, one per marker cell \<open>(r, c)\<close>: its
  \<open>col\<close> is \<open>c\<close>, its \<open>row\<close> is \<open>r\<close>, its \<open>minRow\<close> and \<open>maxRow\<close> are the travel bounds of the
  input grid, which are what the two scanning loops return on it, its tile size is the
  level's and its speed the default; the marker's cell is floor afterwards.
  In the scenario grid with tile size 10 there is exactly one obstacle, with \<open>col = 2\<close>,
  \<open>row = 2\<close>, \<open>minRow = 1\<close> and \<open>maxRow = 3\<close>, and cell (2,2) is neither wall nor goal.
\<close>

theorem obstacles_from_markers:
  "(\<exists>L. Level g tileSize = Some L
      \<and> l_obstacles L = map (spawn g tileSize) (filter (is_marker g) (scan_cells g))
      \<and> map o_col (l_obstacles L) = map snd (filter (is_marker g) (scan_cells g))
      \<and> map o_row (l_obstacles L) = map fst (filter (is_marker g) (scan_cells g))
      \<and> map o_minRow (l_obstacles L)
          = map (\<lambda>p. spec_minRow g (snd p) (fst p)) (filter (is_marker g) (scan_cells g))
      \<and> map o_maxRow (l_obstacles L)
          = map (\<lambda>p. spec_maxRow g (snd p) (fst p)) (filter (is_marker g) (scan_cells g))
      \<and> (\<forall>ob \<in> set (l_obstacles L). o_ts ob = tileSize \<and> o_speed ob = default_speed)
      \<and> (\<forall>p \<in> set (filter (is_marker g) (scan_cells g)).
            scanUp g (snd p) (fst p) = Some (spec_minRow g (snd p) (fst p))
          \<and> scanDown g (snd p) (fst p) = Some (spec_maxRow g (snd p) (fst p))
          \<and> cell (l_grid L) (fst p) (snd p) = Some (JNum 0)))
   \<and> (\<exists>L. Level scenario_grid 10 = Some L
        \<and> l_obstacles L = [MovingObstacle 2 2 1 3 10 default_speed]
        \<and> map o_col (l_obstacles L) = [2] \<and> map o_row (l_obstacles L) = [2]
        \<and> map o_minRow (l_obstacles L) = [1] \<and> map o_maxRow (l_obstacles L) = [3]
        \<and> isWall L 2 2 = Some False \<and> isGoal L 2 2 = Some False)"
proof -
  let ?L = "state_after g tileSize (scan_cells g)"
  let ?ms = "filter (is_marker g) (scan_cells g)"
  have pt: "\<forall>p \<in> set ?ms.
      scanUp g (snd p) (fst p) = Some (spec_minRow g (snd p) (fst p))
      \<and> scanDown g (snd p) (fst p) = Some (spec_maxRow g (snd p) (fst p))
      \<and> cell (l_grid ?L) (fst p) (snd p) = Some (JNum 0)"
  proof (intro ballI)
    fix p assume p: "p \<in> set ?ms"
    then have m: "cell g (fst p) (snd p) = Some (JStr ''M'')"
      and inr: "fst p < length g" "snd p < ncols g"
      using mem_scan_cells[of "fst p" "snd p" g] by (simp_all add: is_marker_def)
    from m inr(2) have "cell (l_grid ?L) (fst p) (snd p) = Some (JNum 0)"
      by (simp add: state_after_def cell_final norm_cell_def)
    with inr(1) show "scanUp g (snd p) (fst p) = Some (spec_minRow g (snd p) (fst p))
      \<and> scanDown g (snd p) (fst p) = Some (spec_maxRow g (snd p) (fst p))
      \<and> cell (l_grid ?L) (fst p) (snd p) = Some (JNum 0)"
      by (simp add: scanUp_spec scanDown_spec)
  qed
  have obs: "l_obstacles ?L = map (spawn g tileSize) ?ms"
    by (simp add: state_after_def)
  have col: "map o_col (l_obstacles ?L) = map snd ?ms"
    and row: "map o_row (l_obstacles ?L) = map fst ?ms"
    and lo: "map o_minRow (l_obstacles ?L) = map (\<lambda>p. spec_minRow g (snd p) (fst p)) ?ms"
    and hi: "map o_maxRow (l_obstacles ?L) = map (\<lambda>p. spec_maxRow g (snd p) (fst p)) ?ms"
    unfolding obs by (simp_all add: spawn_def MovingObstacle_def comp_def)
  have rest: "\<forall>ob \<in> set (l_obstacles ?L). o_ts ob = tileSize \<and> o_speed ob = default_speed"
    unfolding obs by (auto simp: spawn_def MovingObstacle_def)
  from pt obs col row lo hi rest have general: "\<exists>L. Level g tileSize = Some L
      \<and> l_obstacles L = map (spawn g tileSize) ?ms
      \<and> map o_col (l_obstacles L) = map snd ?ms
      \<and> map o_row (l_obstacles L) = map fst ?ms
      \<and> map o_minRow (l_obstacles L) = map (\<lambda>p. spec_minRow g (snd p) (fst p)) ?ms
      \<and> map o_maxRow (l_obstacles L) = map (\<lambda>p. spec_maxRow g (snd p) (fst p)) ?ms
      \<and> (\<forall>ob \<in> set (l_obstacles L). o_ts ob = tileSize \<and> o_speed ob = default_speed)
      \<and> (\<forall>p \<in> set ?ms.
            scanUp g (snd p) (fst p) = Some (spec_minRow g (snd p) (fst p))
          \<and> scanDown g (snd p) (fst p) = Some (spec_maxRow g (snd p) (fst p))
          \<and> cell (l_grid L) (fst p) (snd p) = Some (JNum 0))"
    unfolding Level_state by blast
  have scenario: "\<exists>L. Level scenario_grid 10 = Some L
        \<and> l_obstacles L = [MovingObstacle 2 2 1 3 10 default_speed]
        \<and> map o_col (l_obstacles L) = [2] \<and> map o_row (l_obstacles L) = [2]
        \<and> map o_minRow (l_obstacles L) = [1] \<and> map o_maxRow (l_obstacles L) = [3]
        \<and> isWall L 2 2 = Some False \<and> isGoal L 2 2 = Some False"
    unfolding scenario_level
    by (simp add: isWall_def isGoal_def tileAt_def cell_def MovingObstacle_def)
  from general scenario show ?thesis by blast
qed

theorem obstacles_from_markers_witness:
  "(2, 2) \<in> set (filter (is_marker scenario_grid) (scan_cells scenario_grid))
   \<and> scanUp scenario_grid 2 2 = Some 1 \<and> scanDown scenario_grid 2 2 = Some 3
   \<and> map_option (\<lambda>L. cell (l_grid L) 2 2) (Level scenario_grid 10) = Some (Some (JNum 0))
   \<and> map_option (\<lambda>L. map o_col (l_obstacles L)) (Level scenario_grid 10) = Some [2]
   \<and> map_option (\<lambda>L. map o_row (l_obstacles L)) (Level scenario_grid 10) = Some [2]
   \<and> map_option (\<lambda>L. map o_minRow (l_obstacles L)) (Level scenario_grid 10) = Some [1]
   \<and> map_option (\<lambda>L. map o_maxRow (l_obstacles L)) (Level scenario_grid 10) = Some [3]
   \<and> map_option (\<lambda>L. map o_ts (l_obstacles L)) (Level scenario_grid 10) = Some [10]"
proof -
  have mem: "(2, 2) \<in> set (filter (is_marker scenario_grid) (scan_cells scenario_grid))"
    by code_simp
  have lo: "spec_minRow scenario_grid 2 2 = 1" by code_simp
  have hi: "spec_maxRow scenario_grid 2 2 = 3" by code_simp
  from obstacles_from_markers[of scenario_grid 10] mem lo hi show ?thesis
    by (fastforce simp: MovingObstacle_def)
qed

text \<open>
  C7. After any number \<open>n\<close> of \<open>updateObstacles()\<close> ticks, \<open>resetObstacles()\<close> gives back the
  level as constructed: the bounds of every obstacle are those after construction, its
  centre is the one of its spawn row and its direction is \<open>+1\<close>.
\<close>

theorem reset_restores_construction:
  "\<exists>L. Level g tileSize = Some L
      \<and> resetObstacles ((updateObstacles ^^ n) L) = L
      \<and> map bounds (l_obstacles (resetObstacles ((updateObstacles ^^ n) L)))
          = map bounds (l_obstacles L)
      \<and> (\<forall>ob \<in> set (l_obstacles (resetObstacles ((updateObstacles ^^ n) L))).
            o_y ob = of_nat (o_row ob) * o_ts ob + o_ts ob / 2 \<and> o_dir ob = 1)"
proof -
  let ?L = "state_after g tileSize (scan_cells g)"
  have same: "resetObstacles ((updateObstacles ^^ n) ?L) = ?L"
    by (simp add: resetObstacles_after_updates resetObstacles_state)
  have "\<forall>ob \<in> set (l_obstacles (resetObstacles ((updateObstacles ^^ n) ?L))).
          o_y ob = of_nat (o_row ob) * o_ts ob + o_ts ob / 2 \<and> o_dir ob = 1"
    by (auto simp: resetObstacles_def reset_def)
  with same show ?thesis by (simp add: Level_state)
qed

theorem reset_restores_construction_witness:
  "map_option (\<lambda>L. map bounds (l_obstacles (resetObstacles ((updateObstacles ^^ 6) L))))
      (Level scenario_grid 10)
     = Some [\<lparr> r_left = 21, r_top = 21, r_right = 29, r_bottom = 29 \<rparr>]
   \<and> map_option (\<lambda>L. map o_dir (l_obstacles ((updateObstacles ^^ 6) L))) (Level scenario_grid 10)
     = Some [- 1]
   \<and> map_option (\<lambda>L. map o_dir (l_obstacles (resetObstacles ((updateObstacles ^^ 6) L))))
      (Level scenario_grid 10)
     = Some [1]"
proof -
  have before: "map o_dir (map (update ^^ 6) [MovingObstacle 2 2 1 3 10 default_speed]) = [- 1]"
    by (simp add: eval_nat_numeral update_def MovingObstacle_def default_speed_def Let_def)
  have b: "bounds (MovingObstacle 2 2 1 3 10 default_speed)
      = \<lparr> r_left = 21, r_top = 21, r_right = 29, r_bottom = 29 \<rparr>"
    by (simp add: bounds_def MovingObstacle_def Let_def)
  from reset_restores_construction[of scenario_grid 10 6] before b show ?thesis
    by (auto simp: scenario_level updateObstacles_iter)
qed

text \<open>
  C8. For every input grid, \<open>findStart()\<close> on the constructed level returns \<open>null\<close>.
\<close>

theorem findStart_after_construction:
  "\<exists>L. Level g tileSize = Some L \<and> findStart L = Some None"
proof -
  let ?L = "state_after g tileSize (scan_cells g)"
  have "\<forall>i j. j < ncols (l_grid ?L) \<longrightarrow> cell (l_grid ?L) i j \<noteq> Some (JNum 2)"
  proof (intro allI impI)
    fix i j assume "j < ncols (l_grid ?L)"
    then have j: "j < ncols g" by (simp add: state_after_def ncols_norm_list)
    then show "cell (l_grid ?L) i j \<noteq> Some (JNum 2)"
      by (cases "cell g i j") (simp_all add: state_after_def cell_final norm_cell_not_tile)
  qed
  then have "findStart ?L = Some None"
    unfolding findStart_def by (rule findStart_rows_none)
  then show ?thesis by (simp add: Level_state)
qed

text \<open>
  C9. A level entry that is neither an array nor an object with a \<open>grid\<close> field loads as
  the fallback level: two rows, two columns, every cell a wall.
\<close>

theorem load_entry_fallback:
  assumes "\<not> is_array levelEntry" and "\<not> has_grid_field levelEntry"
  shows "\<exists>L. load_entry levelEntry = Inr L
      \<and> rows L = 2 \<and> cols L = Some 2
      \<and> (\<forall>r < 2. \<forall>c < 2. isWall L r c = Some True)"
proof -
  from assms(2) have "get_grid levelEntry = JUndefined"
    by (cases levelEntry) (auto simp: has_grid_field_def get_grid_def split: option.splits)
  with assms(1) have "load_entry levelEntry = new_Level fallback_grid TS"
    by (cases levelEntry) (simp_all add: load_entry_def is_array_def truthy_def fallback_grid_def)
  then have le: "load_entry levelEntry
      = Inr \<lparr> l_grid = fallback_grid, l_ts = TS, l_obstacles = [], l_start = None \<rparr>"
    by (simp add: new_Level_def fallback_level)
  have "\<forall>r < 2. \<forall>c < 2.
      isWall \<lparr> l_grid = fallback_grid, l_ts = TS, l_obstacles = [], l_start = None \<rparr> r c
        = Some True"
    by (auto simp: isWall_def tileAt_def cell_def fallback_grid_def less_2_cases_iff)
  with le show ?thesis by (simp add: rows_def cols_def fallback_grid_def)
qed

theorem load_entry_fallback_witness:
  "\<not> is_array (JObj []) \<and> \<not> has_grid_field (JObj [])
   \<and> map_sum id rows (load_entry (JObj [])) = Inr 2
   \<and> map_sum id cols (load_entry (JObj [])) = Inr (Some 2)
   \<and> map_sum id (\<lambda>L. isWall L 1 1) (load_entry (JObj [])) = Inr (Some True)"
proof -
  have h: "\<not> is_array (JObj [])" "\<not> has_grid_field (JObj [])"
    by (simp_all add: is_array_def has_grid_field_def)
  from load_entry_fallback[OF h] h show ?thesis by auto
qed

end
